theory Spec2Isabelle
  imports Main "HOL-Library.Sublist" "HOL-Library.AList"
begin

section \<open>Python string primitives used by the renamers\<close>

text \<open>
  File names and patterns are Python \<open>str\<close> values, modelled as \<open>string\<close>.  The three
  builtins the renamers call on them are \<open>sub in s\<close>, \<open>s.replace(old, new)\<close> and
  \<open>s.strip()\<close>.

  \<open>sub in s\<close> is true when \<open>sub\<close> occurs in \<open>s\<close> as a contiguous run of characters
  compared one by one (so it is literal and case-sensitive); the empty string occurs in
  every string.
\<close>

definition str_in :: "string \<Rightarrow> string \<Rightarrow> bool" where
  "str_in sub s = sublist sub s"

text \<open>
  \<open>s.replace(old, new)\<close> scans \<open>s\<close> from the left.  At an occurrence of \<open>old\<close> it emits
  \<open>new\<close> and resumes right after the occurrence; otherwise it copies one character.
  For the empty \<open>old\<close> Python puts \<open>new\<close> before every character and at the end:
  \<open>'ab'.replace('', 'X') == 'XaXbX'\<close>.
\<close>

function str_replace :: "string \<Rightarrow> string \<Rightarrow> string \<Rightarrow> string" where
  "str_replace old new [] = (if old = [] then new else [])"
| "str_replace old new (c # cs) =
     (if old = [] then new @ c # str_replace old new cs
      else if prefix old (c # cs) then new @ str_replace old new (drop (length old) (c # cs))
      else c # str_replace old new cs)"
  by pat_completeness auto
termination
  by (relation "measure (\<lambda>(old, new, s). length s)") auto

text \<open>
  \<open>s.strip()\<close> removes the leading and the trailing whitespace of \<open>s\<close>.  The characters
  Python counts as whitespace, among those a \<open>char\<close> can hold: tab to carriage return,
  the four separators \<open>0x1C\<close> to \<open>0x1F\<close>, the space, \<open>0x85\<close> and \<open>0xA0\<close>.
\<close>

definition isspace :: "char \<Rightarrow> bool" where
  "isspace c = (let n = (of_char c :: nat)
                in (9 \<le> n \<and> n \<le> 13) \<or> (28 \<le> n \<and> n \<le> 32) \<or> n = 133 \<or> n = 160)"

definition strip :: "string \<Rightarrow> string" where
  "strip s = rev (dropWhile isspace (rev (dropWhile isspace s)))"

section \<open>Computing the new name\<close>

text \<open>
  The batch script keeps its rules in a \<open>dict\<close>, whose \<open>items()\<close> come in insertion
  order: an association list.  Lines 116 to 118 of \<open>rename_pbr_textures.py\<close>:
  \<^verbatim>\<open>
  for old_pattern, new_pattern in patterns.items():
      if old_pattern in new_file_name:
          new_file_name = new_file_name.replace(old_pattern, new_pattern)
  \<close>
  The graphical variants run the same two inner lines once, for the single rule typed
  by the user (lines 149 and 150 of \<open>renamer_dnd.py\<close>).
\<close>

fun computeNewName :: "(string \<times> string) list \<Rightarrow> string \<Rightarrow> string" where
  "computeNewName [] new_file_name = new_file_name"
| "computeNewName ((old_pattern, new_pattern) # patterns) new_file_name =
     computeNewName patterns
       (if str_in old_pattern new_file_name
        then str_replace old_pattern new_pattern new_file_name
        else new_file_name)"

text \<open>
  The specification's wording of replace-all, as a relation between a file name and its
  rewriting: the name is cut, from the left, at the occurrences of \<open>match\<close>; every piece
  \<open>u\<close> before an occurrence is as short as possible (the occurrence that ends the piece
  is the leftmost one of \<open>u @ match\<close>), the remainder holds no occurrence, and the result
  is the same pieces with \<open>replacement\<close> at every cut.
\<close>

definition replace_all_spec :: "string \<Rightarrow> string \<Rightarrow> string \<Rightarrow> string \<Rightarrow> bool" where
  "replace_all_spec match replacement filename result \<longleftrightarrow>
     (\<exists>segs rest.
        filename = concat (map (\<lambda>u. u @ match) segs) @ rest \<and>
        (\<forall>u \<in> set segs. \<not> sublist match (u @ butlast match)) \<and>
        \<not> sublist match rest \<and>
        result = concat (map (\<lambda>u. u @ replacement) segs) @ rest)"

section \<open>The operating system\<close>

text \<open>
  The renamers reach the file system through five functions of Python's \<open>os\<close> module.
  What these compute depends on the platform and on the disk, so they are parameters of
  the model: a record of operations over a file-system state of any type \<open>'fs\<close>.
  \<open>os.rename\<close> either raises (\<open>Inl\<close> the exception) or returns the file system after the
  renaming.
\<close>

datatype exn = OSError string | NameError string

record 'fs os_module =
  os_path_isfile :: "'fs \<Rightarrow> string \<Rightarrow> bool"
  os_path_dirname :: "string \<Rightarrow> string"
  os_path_basename :: "string \<Rightarrow> string"
  os_path_join :: "string \<Rightarrow> string \<Rightarrow> string"
  os_rename :: "'fs \<Rightarrow> string \<Rightarrow> string \<Rightarrow> exn + 'fs"

text \<open>
  The part of the world both renamers act on: the file system, and the list of the
  \<open>os.rename\<close> calls made so far, each with its source and destination, in order.  The
  list is kept only to state which calls a run makes.
\<close>

record 'fs world =
  disk :: "'fs"
  rename_calls :: "(string \<times> string) list"

section \<open>The graphical renamer\<close>

text \<open>
  \<open>renamer_dnd.py\<close> (PyQt5) and \<open>renamer_dnd_Qt6.py\<close> (PyQt6) hold the dropped paths
  in a list (\<open>self.files\<close>, in the PyQt6 variant \<open>self.drop_area.files\<close>), two text
  fields and a log panel.  Their \<open>dropEvent\<close>, \<open>rename_files\<close> and \<open>clear_files\<close> agree
  line for line on this state (as do those of the older copy \<open>_bak/renamer_dnd.py\<close>),
  so one model serves all.  A line of the log panel is kept by its kind and its inserted
  values; appending a line to the panel always succeeds.
\<close>

datatype log_line =
    No_files_to_rename
  | Pattern_cannot_be_empty
  | Renamed string string
  | Failed_to_rename string exn
  | Files_renamed nat

record 'fs window = "'fs world" +
  files :: "string list"
  pattern_input :: string
  replace_input :: string
  log_output :: "log_line list"

text \<open>
  \<^verbatim>\<open>
  def dropEvent(self, event):
      urls = event.mimeData().urls()
      for url in urls:
          file_path = url.toLocalFile()
          if os.path.isfile(file_path) and file_path not in self.files:
              self.files.append(file_path)
              self.drop_area.addItem(file_path)
  \<close>
\<close>

definition offer :: "'fs os_module \<Rightarrow> string \<Rightarrow> 'fs window \<Rightarrow> 'fs window" where
  "offer os file_path w =
     (if os_path_isfile os (disk w) file_path \<and> file_path \<notin> set (files w)
      then w\<lparr>files := files w @ [file_path]\<rparr>
      else w)"

definition dropEvent :: "'fs os_module \<Rightarrow> string list \<Rightarrow> 'fs window \<Rightarrow> 'fs window" where
  "dropEvent os urls w = fold (offer os) urls w"

definition clear_files :: "'fs window \<Rightarrow> 'fs window" where
  "clear_files w = w\<lparr>files := []\<rparr>"

text \<open>
  The body of the loop of \<open>rename_files\<close>, for one candidate:
  \<^verbatim>\<open>
  folder = os.path.dirname(file_path)
  filename = os.path.basename(file_path)
  if pattern in filename:
      new_filename = filename.replace(pattern, replace)
      new_file_path = os.path.join(folder, new_filename)
      try:
          os.rename(file_path, new_file_path)
          self.log_output.append(f"Renamed: {filename} -> {new_filename}")
          renamed_count += 1
      except Exception as e:
          self.log_output.append(f"Failed to rename {filename}: {e}")
  \<close>
\<close>

definition rename_candidate ::
  "'fs os_module \<Rightarrow> string \<Rightarrow> string \<Rightarrow> string \<Rightarrow> 'fs window \<times> nat \<Rightarrow> 'fs window \<times> nat" where
  "rename_candidate os pattern replace file_path acc =
     (let w = fst acc; renamed_count = snd acc;
          folder = os_path_dirname os file_path;
          filename = os_path_basename os file_path
      in if str_in pattern filename then
           (let new_filename = str_replace pattern replace filename;
                new_file_path = os_path_join os folder new_filename;
                called = rename_calls w @ [(file_path, new_file_path)]
            in case os_rename os (disk w) file_path new_file_path of
                 Inr d \<Rightarrow>
                   (w\<lparr>disk := d, rename_calls := called,
                      log_output := log_output w @ [Renamed filename new_filename]\<rparr>,
                    renamed_count + 1)
               | Inl e \<Rightarrow>
                   (w\<lparr>rename_calls := called,
                      log_output := log_output w @ [Failed_to_rename filename e]\<rparr>,
                    renamed_count))
         else (w, renamed_count))"

fun rename_loop ::
  "'fs os_module \<Rightarrow> string \<Rightarrow> string \<Rightarrow> string list \<Rightarrow> 'fs window \<times> nat \<Rightarrow> 'fs window \<times> nat" where
  "rename_loop os pattern replace [] acc = acc"
| "rename_loop os pattern replace (file_path # rest) acc =
     rename_loop os pattern replace rest (rename_candidate os pattern replace file_path acc)"

text \<open>
  \<^verbatim>\<open>
  def rename_files(self):
      if not self.files:
          self.log_output.append("No files to rename.")
          return
      pattern = self.pattern_input.text().strip()
      replace = self.replace_input.text().strip()
      if not pattern:
          self.log_output.append("Pattern cannot be empty.")
          return
      renamed_count = 0
      for file_path in self.files:
          ...
      self.log_output.append(f"{renamed_count} file(s) renamed.")
      self.clear_files()
  \<close>
\<close>

definition FileRenamerApp_rename_files :: "'fs os_module \<Rightarrow> 'fs window \<Rightarrow> 'fs window" where
  "FileRenamerApp_rename_files os w =
     (if files w = [] then w\<lparr>log_output := log_output w @ [No_files_to_rename]\<rparr>
      else
        let pattern = strip (pattern_input w);
            replace = strip (replace_input w)
        in if pattern = [] then w\<lparr>log_output := log_output w @ [Pattern_cannot_be_empty]\<rparr>
           else
             let finished = rename_loop os pattern replace (files w) (w, 0);
                 w' = fst finished; renamed_count = snd finished
             in clear_files (w'\<lparr>log_output := log_output w' @ [Files_renamed renamed_count]\<rparr>))"

text \<open>
  The PyQt6 variant also shows a live preview, recomputed whenever a text field or the
  list of files changes (\<open>update_preview\<close>, lines 158 to 172 of \<open>renamer_dnd_Qt6.py\<close>):
  \<^verbatim>\<open>
  def update_preview(self):
      files = self.drop_area.files
      pattern = self.pattern_input.text()
      replace = self.replace_input.text()
      preview = []
      for file_path in files:
          filename = os.path.basename(file_path)
          if pattern in filename:
              new_name = filename.replace(pattern, replace)
              preview.append(f"{filename}  ->  {new_name}")
          else:
              preview.append(f"{filename}  (no change)")
      self.preview_area.setPlainText("\n".join(preview))
  \<close>
  The result is the list of the lines set into the preview area.
\<close>

datatype preview_line = Preview_change string string | Preview_no_change string

definition update_preview :: "'fs os_module \<Rightarrow> 'fs window \<Rightarrow> preview_line list" where
  "update_preview os w =
     (let pattern = pattern_input w;
          replace = replace_input w
      in map (\<lambda>file_path.
                let filename = os_path_basename os file_path
                in if str_in pattern filename
                   then Preview_change filename (str_replace pattern replace filename)
                   else Preview_no_change filename)
             (files w))"

section \<open>The batch renamer\<close>

text \<open>
  \<open>rename_pbr_textures.py\<close> imports \<open>os\<close>, \<open>json\<close> and \<open>datetime\<close> (lines 60 to 62)
  and nothing else.
\<close>

definition module_imports :: "string list" where
  "module_imports = [''os'', ''json'', ''datetime'']"

text \<open>
  \<^verbatim>\<open>
  def load_rename_patterns():
      patterns = {}
      try:
          with open(CONFIG_FILE, newline='', encoding='utf-8') as csvfile:
              reader = csv.reader(csvfile, delimiter=';')
              for row in reader:
                  if len(row) == 2:
                      old_name = row[0].strip()
                      new_name = row[1].strip()
                      patterns[old_name] = new_name
      except Exception as e:
          print(f"Error reading config file: {e}")
      return patterns
  \<close>
  The argument is what \<open>open\<close> does: it raises (\<open>Inl\<close>), or it gives the file, taken as
  the rows a semicolon-delimited reader would cut it into.  Evaluating the name \<open>csv\<close>
  raises \<open>NameError\<close> unless the module is imported.  The function returns the dictionary,
  as the list of its items in insertion order, and the exceptions it printed.
\<close>

definition load_rename_patterns ::
  "exn + string list list \<Rightarrow> (string \<times> string) list \<times> exn list" where
  "load_rename_patterns opened =
     (case opened of
        Inl e \<Rightarrow> ([], [e])
      | Inr rows \<Rightarrow>
          if ''csv'' \<in> set module_imports
          then (fold (\<lambda>row patterns.
                        if length row = 2
                        then AList.update (strip (row ! 0)) (strip (row ! 1)) patterns
                        else patterns) rows [], [])
          else ([], [NameError ''csv'']))"

text \<open>
  The status printed and logged for a file: \<open>renamed to -> new_file_name\<close>,
  \<open>Failed: e\<close> or \<open>skipped\<close>.  A run collects its counters, the directories it
  processed, and the lines it printed and logged, each the file and its status.
\<close>

datatype status_message = Renamed_to string | Failed exn | Skipped

record 'fs batch_run = "'fs world" +
  rename_count :: nat
  skipped_count :: nat
  processed_paths :: "string list"
  log :: "(string \<times> status_message) list"

text \<open>
  The body of the inner loop of \<open>rename_files\<close> (lines 111 to 139), for one file of one
  directory:
  \<^verbatim>\<open>
  if file.endswith('.png'):
      old_path = os.path.join(root, file)
      new_file_name = file
      for old_pattern, new_pattern in patterns.items(): ...
      new_path = os.path.join(root, new_file_name)
      processed_paths.append(root)
      if old_path != new_path:
          try:
              os.rename(old_path, new_path)
              rename_count += 1
              status_message = f"renamed to -> {new_file_name}"
          except Exception as e:
              status_message = f"Failed: {e}"
      else:
          skipped_count += 1
          status_message = f"skipped"
      print(f"{output}{status_message}")
      log.write(f"{output}{status_message}\n")
  \<close>
\<close>

definition process_file ::
  "'fs os_module \<Rightarrow> (string \<times> string) list \<Rightarrow> string \<Rightarrow> string \<Rightarrow> 'fs batch_run \<Rightarrow> 'fs batch_run" where
  "process_file os patterns root file r =
     (if suffix ''.png'' file then
        (let old_path = os_path_join os root file;
             new_file_name = computeNewName patterns file;
             new_path = os_path_join os root new_file_name;
             r1 = r\<lparr>processed_paths := processed_paths r @ [root]\<rparr>
         in if old_path \<noteq> new_path then
              (case os_rename os (disk r) old_path new_path of
                 Inr d \<Rightarrow>
                   r1\<lparr>disk := d, rename_calls := rename_calls r @ [(old_path, new_path)],
                      rename_count := rename_count r + 1,
                      log := log r @ [(file, Renamed_to new_file_name)]\<rparr>
               | Inl e \<Rightarrow>
                   r1\<lparr>rename_calls := rename_calls r @ [(old_path, new_path)],
                      log := log r @ [(file, Failed e)]\<rparr>)
            else r1\<lparr>skipped_count := skipped_count r + 1,
                    log := log r @ [(file, Skipped)]\<rparr>)
      else r)"

text \<open>
  \<open>for root, _, files in os.walk(SOURCE_DIRECTORY): for file in files: ...\<close>
  The walk is taken as the sequence of triples it yields.
\<close>

fun walk_loop ::
  "'fs os_module \<Rightarrow> (string \<times> string) list \<Rightarrow> (string \<times> string list \<times> string list) list \<Rightarrow>
   'fs batch_run \<Rightarrow> 'fs batch_run" where
  "walk_loop os patterns [] r = r"
| "walk_loop os patterns ((root, dirs, fs) # walked) r =
     walk_loop os patterns walked (fold (process_file os patterns root) fs r)"

text \<open>
  \<open>rename_files\<close> of the batch script: the counters start at zero, the patterns are
  loaded, and the walk is processed.  The result is what \<open>load_rename_patterns\<close> printed
  and the finished run.  Opening the log file, writing to it and printing are taken to
  succeed; the summary written after the loop (lines 141 to 169) only reads the counters
  and the processed directories.
\<close>

definition rename_files ::
  "'fs os_module \<Rightarrow> exn + string list list \<Rightarrow> (string \<times> string list \<times> string list) list \<Rightarrow>
   'fs \<Rightarrow> exn list \<times> 'fs batch_run" where
  "rename_files os opened walked d =
     (let loaded = load_rename_patterns opened;
          patterns = fst loaded
      in (snd loaded,
          walk_loop os patterns walked
            \<lparr>disk = d, rename_calls = [], rename_count = 0, skipped_count = 0,
             processed_paths = [], log = []\<rparr>))"

section \<open>A small operating system for the examples\<close>

text \<open>
  The theorems below hold for every \<open>os_module\<close>.  Their examples run on this one: the
  disk is the list of the files present, paths are cut at \<open>/\<close> as \<open>posixpath\<close> does, and
  \<open>os.rename\<close> raises when the source is missing or when another file has the
  destination's name.
\<close>

definition example_basename :: "string \<Rightarrow> string" where
  "example_basename p = rev (takeWhile (\<lambda>c. c \<noteq> CHR ''/'') (rev p))"

definition example_dirname :: "string \<Rightarrow> string" where
  "example_dirname p =
     (let head = rev (dropWhile (\<lambda>c. c \<noteq> CHR ''/'') (rev p))
      in if head \<noteq> [] \<and> list_ex (\<lambda>c. c \<noteq> CHR ''/'') head
         then rev (dropWhile (\<lambda>c. c = CHR ''/'') (rev head))
         else head)"

definition example_join :: "string \<Rightarrow> string \<Rightarrow> string" where
  "example_join a b =
     (if prefix ''/'' b then b
      else if a = [] \<or> suffix ''/'' a then a @ b
      else a @ ''/'' @ b)"

definition example_rename :: "string list \<Rightarrow> string \<Rightarrow> string \<Rightarrow> exn + string list" where
  "example_rename d src dst =
     (if src \<notin> set d then Inl (OSError ''No such file or directory'')
      else if dst \<in> set d \<and> dst \<noteq> src then Inl (OSError ''File exists'')
      else Inr (map (\<lambda>p. if p = src then dst else p) d))"

definition example_os :: "string list os_module" where
  "example_os =
     \<lparr>os_path_isfile = (\<lambda>d p. p \<in> set d),
      os_path_dirname = example_dirname,
      os_path_basename = example_basename,
      os_path_join = example_join,
      os_rename = example_rename\<rparr>"

definition example_window :: "string list \<Rightarrow> string list \<Rightarrow> string \<Rightarrow> string \<Rightarrow> string list window" where
  "example_window d fs pattern replace =
     \<lparr>disk = d, rename_calls = [], files = fs, pattern_input = pattern,
      replace_input = replace, log_output = []\<rparr>"

definition example_run :: "string list \<Rightarrow> string list batch_run" where
  "example_run d =
     \<lparr>disk = d, rename_calls = [], rename_count = 0, skipped_count = 0,
      processed_paths = [], log = []\<rparr>"

section \<open>Reading the reports\<close>

text \<open>
  The candidates of a batch run: the files of the walk whose name ends with \<open>.png\<close>,
  in the order of the walk.
\<close>

definition candidates_of :: "(string \<times> string list \<times> string list) list \<Rightarrow> string list" where
  "candidates_of walked = concat (map (\<lambda>(root, dirs, fs). filter (suffix ''.png'') fs) walked)"

text \<open>
  The candidate a line of the log panel reports on: the \<open>Renamed\<close> and the
  \<open>Failed to rename\<close> lines name one, the other lines none.
\<close>

fun reported :: "log_line \<Rightarrow> string list" where
  "reported (Renamed filename new_filename) = [filename]"
| "reported (Failed_to_rename filename e) = [filename]"
| "reported _ = []"

section \<open>Reading the working set\<close>

text \<open>
  The window as \<open>__init__\<close> leaves it: no files, empty text fields, an empty log.
\<close>

definition initial_window :: "'fs \<Rightarrow> 'fs window" where
  "initial_window d =
     \<lparr>disk = d, rename_calls = [], files = [], pattern_input = [], replace_input = [],
      log_output = []\<rparr>"

text \<open>
  The elements of a list, each once, at the place of its first occurrence.
\<close>

fun first_occurrences :: "'a list \<Rightarrow> 'a list" where
  "first_occurrences [] = []"
| "first_occurrences (x # xs) = x # first_occurrences (filter (\<lambda>y. y \<noteq> x) xs)"

section \<open>Replace-all and the order of the rules\<close>

lemma str_replace_absent: "old \<noteq> [] \<Longrightarrow> \<not> sublist old s \<Longrightarrow> str_replace old new s = s"
  by (induction s) (auto simp: sublist_Cons_right)

lemma str_replace_at_occurrence:
  "old \<noteq> [] \<Longrightarrow> str_replace old new (old @ t) = new @ str_replace old new t"
  by (cases old) auto

lemma prefix_in_piece:
  assumes "u \<noteq> []" "prefix old (u @ old @ t)"
  shows "prefix old (u @ butlast old)"
proof (cases "old = []")
  case True
  then show ?thesis by simp
next
  case False
  then have eq: "u @ old @ t = (u @ butlast old) @ (last old # t)"
    by (metis append.assoc append_Cons append_Nil append_butlast_last_id)
  have "length old \<le> length (u @ butlast old)"
    using assms(1) False by (cases u) auto
  with assms(2) show ?thesis
    unfolding eq
    by (metis prefix_length_prefix prefix_append prefixI prefix_order.order_refl)
qed

lemma str_replace_piece:
  "old \<noteq> [] \<Longrightarrow> \<not> sublist old (u @ butlast old) \<Longrightarrow>
   str_replace old new (u @ old @ t) = u @ new @ str_replace old new t"
proof (induction u)
  case Nil
  then show ?case by (simp add: str_replace_at_occurrence)
next
  case (Cons c u)
  have np: "\<not> prefix old (c # u @ old @ t)"
    using prefix_in_piece[of "c # u" old t] Cons.prems(2) by auto
  have "\<not> sublist old (u @ butlast old)"
    using Cons.prems(2) by (simp add: sublist_Cons_right)
  with Cons.IH Cons.prems(1) np show ?case by simp
qed

lemma replace_all_spec_unique:
  assumes "match \<noteq> []" "replace_all_spec match replacement filename result"
  shows "result = str_replace match replacement filename"
proof -
  have "\<not> sublist match rest \<Longrightarrow> \<forall>u \<in> set segs. \<not> sublist match (u @ butlast match) \<Longrightarrow>
        str_replace match replacement (concat (map (\<lambda>u. u @ match) segs) @ rest)
          = concat (map (\<lambda>u. u @ replacement) segs) @ rest" for segs rest
    using assms(1) by (induction segs) (simp_all add: str_replace_absent str_replace_piece)
  with assms(2) show ?thesis
    unfolding replace_all_spec_def by auto
qed

lemma not_sublist_butlast: "old \<noteq> [] \<Longrightarrow> \<not> sublist old (butlast old)"
  using sublist_length_le[of old "butlast old"] by (cases old) auto

lemma replace_all_spec_occurrence:
  assumes "match \<noteq> []" "replace_all_spec match replacement t result"
  shows "replace_all_spec match replacement (match @ t) (replacement @ result)"
proof -
  from assms(2) obtain segs rest where h:
    "t = concat (map (\<lambda>u. u @ match) segs) @ rest"
    "\<forall>u \<in> set segs. \<not> sublist match (u @ butlast match)"
    "\<not> sublist match rest"
    "result = concat (map (\<lambda>u. u @ replacement) segs) @ rest"
    unfolding replace_all_spec_def by blast
  show ?thesis
    unfolding replace_all_spec_def
    by (rule exI[of _ "[] # segs"], rule exI[of _ rest])
       (use h assms(1) in \<open>simp add: not_sublist_butlast\<close>)
qed

lemma replace_all_spec_copy:
  assumes "match \<noteq> []" "\<not> prefix match (c # cs)"
    and "replace_all_spec match replacement cs result"
  shows "replace_all_spec match replacement (c # cs) (c # result)"
proof -
  from assms(3) obtain segs rest where h:
    "cs = concat (map (\<lambda>u. u @ match) segs) @ rest"
    "\<forall>u \<in> set segs. \<not> sublist match (u @ butlast match)"
    "\<not> sublist match rest"
    "result = concat (map (\<lambda>u. u @ replacement) segs) @ rest"
    unfolding replace_all_spec_def by blast
  show ?thesis
  proof (cases segs)
    case Nil
    with h assms(2) have "\<not> sublist match (c # rest)"
      by (simp add: sublist_Cons_right)
    with h Nil show ?thesis
      unfolding replace_all_spec_def
      by (intro exI[of _ "[]"] exI[of _ "c # rest"]) simp
  next
    case (Cons u us)
    have "prefix (c # u @ butlast match) (c # cs)"
      using h(1) Cons assms(1)
      by (simp add: prefix_def) (metis append.assoc append_butlast_last_id)
    moreover have "length match \<le> length (c # u @ butlast match)"
      using assms(1) by (cases match) auto
    ultimately have "\<not> prefix match (c # u @ butlast match)"
      using assms(2) by (meson prefix_order.trans)
    moreover have "\<not> sublist match (u @ butlast match)"
      using h(2) Cons by simp
    ultimately have "\<not> sublist match ((c # u) @ butlast match)"
      by (simp add: sublist_Cons_right)
    with h Cons show ?thesis
      unfolding replace_all_spec_def
      by (intro exI[of _ "(c # u) # us"] exI[of _ rest]) simp
  qed
qed

lemma str_replace_meets_spec:
  "match \<noteq> [] \<Longrightarrow> replace_all_spec match replacement s (str_replace match replacement s)"
proof (induction match replacement s rule: str_replace.induct)
  case (1 old new)
  then show ?case
    unfolding replace_all_spec_def by (intro exI[of _ "[]"]) simp
next
  case (2 old new c cs)
  show ?case
  proof (cases "prefix old (c # cs)")
    case True
    then obtain t where t: "c # cs = old @ t"
      by (auto simp: prefix_def)
    then have "drop (length old) (c # cs) = t"
      by (metis append_eq_conv_conj)
    with 2 True t show ?thesis
      using replace_all_spec_occurrence[of old new t "str_replace old new t"]
      by (simp del: str_replace.simps(2) add: str_replace_at_occurrence)
  next
    case False
    with 2 show ?thesis
      using replace_all_spec_copy[of old c cs new "str_replace old new cs"] by simp
  qed
qed

lemma computeNewName_append:
  "computeNewName (rs1 @ rs2) f = computeNewName rs2 (computeNewName rs1 f)"
  by (induction rs1 arbitrary: f) auto

lemma computeNewName_single:
  "match \<noteq> [] \<Longrightarrow> computeNewName [(match, replacement)] f = str_replace match replacement f"
  by (simp add: str_in_def str_replace_absent)

text \<open>
  C1.  For a single rule with a non-empty match, the new name is exactly the replace-all
  rewriting of the file name: every occurrence of the match found by the left-to-right,
  non-overlapping scan is replaced, by literal comparison of characters, and nothing else
  changes.  For several rules, the rules are applied one after the other in the order of
  the list, each to the name as the earlier rules left it, and a rule rewrites the name
  exactly when its match occurs in that current name.
\<close>

theorem computeNewName_replace_all:
  "(match \<noteq> [] \<longrightarrow>
      (\<forall>result. replace_all_spec match replacement filename result \<longleftrightarrow>
                result = computeNewName [(match, replacement)] filename))
   \<and> computeNewName (rules @ [(match, replacement)]) filename =
       (let current = computeNewName rules filename
        in if str_in match current then str_replace match replacement current else current)
   \<and> computeNewName (rules @ rules') filename =
       computeNewName rules' (computeNewName rules filename)"
proof (intro conjI impI allI)
  fix result
  assume ne: "match \<noteq> []"
  show "replace_all_spec match replacement filename result \<longleftrightarrow>
        result = computeNewName [(match, replacement)] filename"
    using ne replace_all_spec_unique[of match replacement filename result]
      str_replace_meets_spec[of match replacement filename]
    by (auto simp: computeNewName_single simp del: computeNewName.simps)
next
  show "computeNewName (rules @ [(match, replacement)]) filename =
       (let current = computeNewName rules filename
        in if str_in match current then str_replace match replacement current else current)"
    by (simp add: computeNewName_append Let_def)
next
  show "computeNewName (rules @ rules') filename =
        computeNewName rules' (computeNewName rules filename)"
    by (rule computeNewName_append)
qed

theorem computeNewName_replace_all_witness:
  "''a'' \<noteq> [] \<and> replace_all_spec ''a'' ''bb'' ''banana'' ''bbbnbbnbb''
   \<and> computeNewName [(''b'', ''a''), (''a'', ''bb'')] ''banana'' = ''bbbbnbbnbb''"
  using computeNewName_replace_all [of "''a''" "''bb''" "''banana''" "[(''b'', ''a'')]" "[]"]
  by (simp add: str_in_def sublist_code(3))

section \<open>Candidates that keep their name\<close>

lemmas example_defs = example_os_def example_window_def example_run_def example_basename_def
  example_dirname_def example_join_def example_rename_def

text \<open>
  C2, as the code has it.  In the batch script a candidate whose computed new name equals
  its old name is reported skipped, and the step changes nothing but the skip counter,
  the processed directories and the log: no \<open>os.rename\<close> call, the same disk; this
  includes a rule whose replacement equals its pattern.  In the graphical variants a
  candidate in whose base name the pattern does not occur is passed over without any
  call, any change of the disk or any line in the log.
\<close>

theorem unchanged_name_is_skipped:
  "(suffix ''.png'' file \<and> computeNewName patterns file = file \<longrightarrow>
      process_file os patterns root file r =
        r\<lparr>processed_paths := processed_paths r @ [root],
          skipped_count := skipped_count r + 1,
          log := log r @ [(file, Skipped)]\<rparr>)
   \<and> (\<not> str_in pattern (os_path_basename os file_path) \<longrightarrow>
        rename_candidate os pattern replace file_path (w, n) = (w, n))"
  by (simp add: process_file_def rename_candidate_def Let_def)

theorem unchanged_name_is_skipped_witness:
  "suffix ''.png'' ''a.png'' \<and> computeNewName [(''a'', ''a'')] ''a.png'' = ''a.png''
   \<and> process_file example_os [(''a'', ''a'')] ''/t'' ''a.png'' (example_run [''/t/a.png'']) =
       \<lparr>disk = [''/t/a.png''], rename_calls = [], rename_count = 0, skipped_count = 1,
        processed_paths = [''/t''], log = [(''a.png'', Skipped)]\<rparr>
   \<and> \<not> str_in ''_Diffuse'' (os_path_basename example_os ''/t/wood_Normal.png'')
   \<and> rename_candidate example_os ''_Diffuse'' ''_COL'' ''/t/wood_Normal.png''
        (example_window [''/t/wood_Normal.png''] [''/t/wood_Normal.png''] ''_Diffuse'' ''_COL'', 0)
      = (example_window [''/t/wood_Normal.png''] [''/t/wood_Normal.png''] ''_Diffuse'' ''_COL'', 0)"
  using unchanged_name_is_skipped [of "''a.png''" "[(''a'', ''a'')]" example_os "''/t''"
      "example_run [''/t/a.png'']" "''_Diffuse''" "''/t/wood_Normal.png''" "''_COL''"
      "example_window [''/t/wood_Normal.png''] [''/t/wood_Normal.png''] ''_Diffuse'' ''_COL''" 0]
  by (simp add: example_defs str_in_def sublist_code(3) suffix_to_prefix)

text \<open>
  The graphical variants test \<open>pattern in filename\<close>, not whether the name changes:
  with the pattern \<open>a\<close> replaced by \<open>a\<close>, the new name of \<open>a.png\<close> is \<open>a.png\<close>, and the
  run calls \<open>os.rename\<close> on it and logs it as renamed.
\<close>

theorem gui_renames_to_same_name:
  "computeNewName [(''a'', ''a'')] ''a.png'' = ''a.png''
   \<and> rename_calls (FileRenamerApp_rename_files example_os
        (example_window [''/t/a.png''] [''/t/a.png''] ''a'' ''a'')) = [(''/t/a.png'', ''/t/a.png'')]
   \<and> log_output (FileRenamerApp_rename_files example_os
        (example_window [''/t/a.png''] [''/t/a.png''] ''a'' ''a'')) =
       [Renamed ''a.png'' ''a.png'', Files_renamed 1]"
  by (simp add: example_defs FileRenamerApp_rename_files_def rename_candidate_def clear_files_def
      strip_def isspace_def str_in_def sublist_code(3) suffix_to_prefix Let_def)

section \<open>One report per candidate\<close>

lemma log_process_file:
  "map fst (log (process_file os patterns root file r)) =
     map fst (log r) @ (if suffix ''.png'' file then [file] else [])"
  by (simp add: process_file_def Let_def split: sum.splits)

lemma log_fold_process_file:
  "map fst (log (fold (process_file os patterns root) fs r)) =
     map fst (log r) @ filter (suffix ''.png'') fs"
  by (induction fs arbitrary: r) (simp_all add: log_process_file)

lemma log_walk_loop:
  "map fst (log (walk_loop os patterns walked r)) = map fst (log r) @ candidates_of walked"
  by (induction walked arbitrary: r) (auto simp: candidates_of_def log_fold_process_file)

lemma reported_rename_candidate:
  "concat (map reported (log_output (fst (rename_candidate os pattern replace file_path acc)))) =
     concat (map reported (log_output (fst acc))) @
       (if str_in pattern (os_path_basename os file_path)
        then [os_path_basename os file_path] else [])"
  by (simp add: rename_candidate_def Let_def split: sum.splits)

lemma reported_rename_loop:
  "concat (map reported (log_output (fst (rename_loop os pattern replace fs acc)))) =
     concat (map reported (log_output (fst acc))) @
       filter (str_in pattern) (map (os_path_basename os) fs)"
  by (induction fs arbitrary: acc) (simp_all add: reported_rename_candidate)

text \<open>
  C4, as the code has it.  A batch run writes exactly one line per candidate, in the
  order of the walk: the files named by the log are the candidates, none omitted, none
  twice (each line carries one of the three statuses).  A run of a graphical variant
  that passes validation writes one \<open>Renamed\<close> or \<open>Failed to rename\<close> line for every
  candidate whose base name contains the pattern, in the order of the candidates, and
  no line for the others.
\<close>

theorem one_outcome_per_processed_candidate:
  "map fst (log (snd (rename_files os opened walked d))) = candidates_of walked
   \<and> map fst (log (walk_loop os patterns walked r)) = map fst (log r) @ candidates_of walked
   \<and> (files w \<noteq> [] \<and> strip (pattern_input w) \<noteq> [] \<longrightarrow>
        concat (map reported (log_output (FileRenamerApp_rename_files os w))) =
          concat (map reported (log_output w)) @
            filter (str_in (strip (pattern_input w))) (map (os_path_basename os) (files w)))"
  by (simp add: rename_files_def log_walk_loop FileRenamerApp_rename_files_def Let_def
      clear_files_def reported_rename_loop)

theorem one_outcome_per_processed_candidate_witness:
  "files (example_window [''/t/a.png'', ''/t/b.png''] [''/t/a.png'', ''/t/b.png''] ''a'' ''c'') \<noteq> []
   \<and> strip ''a'' \<noteq> []
   \<and> concat (map reported (log_output (FileRenamerApp_rename_files example_os
        (example_window [''/t/a.png'', ''/t/b.png''] [''/t/a.png'', ''/t/b.png''] ''a'' ''c'')))) =
      [''a.png'']"
  using one_outcome_per_processed_candidate [of example_os "Inr []" "[]" "[]" "[]" "example_run []"
      "example_window [''/t/a.png'', ''/t/b.png''] [''/t/a.png'', ''/t/b.png''] ''a'' ''c''"]
  by (simp add: example_defs strip_def isspace_def str_in_def sublist_code(3))

text \<open>
  Two candidates, the pattern in the first only: the log panel of the graphical
  variants gets one outcome line and the summary, and nothing about the second.
\<close>

theorem gui_reports_no_skipped_candidate:
  "files (example_window [''/t/a.png'', ''/t/b.png''] [''/t/a.png'', ''/t/b.png''] ''a'' ''c'') =
     [''/t/a.png'', ''/t/b.png'']
   \<and> log_output (FileRenamerApp_rename_files example_os
        (example_window [''/t/a.png'', ''/t/b.png''] [''/t/a.png'', ''/t/b.png''] ''a'' ''c'')) =
      [Renamed ''a.png'' ''c.png'', Files_renamed 1]"
  by (simp add: example_defs FileRenamerApp_rename_files_def rename_candidate_def clear_files_def
      strip_def isspace_def str_in_def sublist_code(3) suffix_to_prefix Let_def)

section \<open>Failed renames\<close>

lemma rename_loop_append:
  "rename_loop os pattern replace (before @ after) acc =
     rename_loop os pattern replace after (rename_loop os pattern replace before acc)"
  by (induction before arbitrary: acc) simp_all

lemma walk_loop_append:
  "walk_loop os patterns (before @ after) r =
     walk_loop os patterns after (walk_loop os patterns before r)"
  by (induction before arbitrary: r) auto

text \<open>
  C5.  When \<open>os.rename\<close> raises for a candidate, the exception ends in that candidate's
  report (\<open>Failed to rename\<close> with the base name and the exception in the graphical
  variants, \<open>Failed\<close> with the exception in the batch script), the disk and the
  counter of renamed files stay as they were, and the loop goes on: whatever happens at
  a candidate, the candidates after it are processed, starting from the state that
  candidate left.  The loops return a state in every case; no exception leaves them.
\<close>

theorem failed_rename_is_recorded_and_loop_goes_on:
  "(str_in pattern (os_path_basename os file_path) \<and>
    os_rename os (disk w) file_path
      (os_path_join os (os_path_dirname os file_path)
         (str_replace pattern replace (os_path_basename os file_path))) = Inl e \<longrightarrow>
      rename_candidate os pattern replace file_path (w, n) =
        (w\<lparr>rename_calls := rename_calls w @
             [(file_path, os_path_join os (os_path_dirname os file_path)
                 (str_replace pattern replace (os_path_basename os file_path)))],
           log_output := log_output w @ [Failed_to_rename (os_path_basename os file_path) e]\<rparr>, n))
   \<and> rename_loop os pattern replace (before @ file_path # after) (w, n) =
       rename_loop os pattern replace after
         (rename_candidate os pattern replace file_path
            (rename_loop os pattern replace before (w, n)))
   \<and> (suffix ''.png'' file \<and>
       os_path_join os root file \<noteq> os_path_join os root (computeNewName patterns file) \<and>
       os_rename os (disk r) (os_path_join os root file)
         (os_path_join os root (computeNewName patterns file)) = Inl e \<longrightarrow>
         process_file os patterns root file r =
           r\<lparr>rename_calls := rename_calls r @
                [(os_path_join os root file, os_path_join os root (computeNewName patterns file))],
             processed_paths := processed_paths r @ [root],
             log := log r @ [(file, Failed e)]\<rparr>)
   \<and> walk_loop os patterns (walked @ (root, dirs, fs @ file # fs') # walked') r =
       walk_loop os patterns walked'
         (fold (process_file os patterns root) fs'
            (process_file os patterns root file
               (fold (process_file os patterns root) fs (walk_loop os patterns walked r))))"
  by (simp add: rename_candidate_def process_file_def Let_def rename_loop_append walk_loop_append)

theorem failed_rename_is_recorded_and_loop_goes_on_witness:
  "str_in ''a'' (os_path_basename example_os ''/t/a.png'')
   \<and> os_rename example_os [''/t/a.png'', ''/t/c.png''] ''/t/a.png'' ''/t/c.png'' =
       Inl (OSError ''File exists'')
   \<and> rename_candidate example_os ''a'' ''c'' ''/t/a.png''
        (example_window [''/t/a.png'', ''/t/c.png''] [''/t/a.png''] ''a'' ''c'', 0) =
       (\<lparr>disk = [''/t/a.png'', ''/t/c.png''],
         rename_calls = [(''/t/a.png'', ''/t/c.png'')],
         files = [''/t/a.png''], pattern_input = ''a'', replace_input = ''c'',
         log_output = [Failed_to_rename ''a.png'' (OSError ''File exists'')]\<rparr>, 0)
   \<and> suffix ''.png'' ''a.png''
   \<and> process_file example_os [(''a'', ''c'')] ''/t'' ''a.png'' (example_run [''/t/a.png'', ''/t/c.png'']) =
       \<lparr>disk = [''/t/a.png'', ''/t/c.png''],
        rename_calls = [(''/t/a.png'', ''/t/c.png'')],
        rename_count = 0, skipped_count = 0, processed_paths = [''/t''],
        log = [(''a.png'', Failed (OSError ''File exists''))]\<rparr>"
  using failed_rename_is_recorded_and_loop_goes_on [of "''a''" example_os "''/t/a.png''"
      "example_window [''/t/a.png'', ''/t/c.png''] [''/t/a.png''] ''a'' ''c''"
      "''c''" "OSError ''File exists''" 0 "[]" "[]"
      "''a.png''" "''/t''" "[(''a'', ''c'')]" "example_run [''/t/a.png'', ''/t/c.png'']"
      "[]" "[]" "[]" "[]" "[]"]
  by (simp add: example_defs str_in_def sublist_code(3) suffix_to_prefix)

section \<open>Applying a rule twice\<close>

lemma str_replace_contains_new:
  "sublist old s \<Longrightarrow> sublist new (str_replace old new s)"
proof (induction old new s rule: str_replace.induct)
  case (1 old new)
  then show ?case by simp
next
  case (2 old new c cs)
  show ?case
  proof (cases "old = [] \<or> prefix old (c # cs)")
    case True
    then show ?thesis by auto
  next
    case False
    with 2 show ?thesis by (auto simp: sublist_Cons_right)
  qed
qed

lemma length_str_replace_ge:
  "length old \<le> length new \<Longrightarrow> length s \<le> length (str_replace old new s)"
proof (induction old new s rule: str_replace.induct)
  case (1 old new)
  then show ?case by simp
next
  case (2 old new c cs)
  show ?case
  proof (cases "old \<noteq> [] \<and> prefix old (c # cs)")
    case True
    then have "length old \<le> length (c # cs)" by (auto dest: prefix_length_le)
    with 2 True show ?thesis by (auto simp del: drop_Suc_Cons length_drop simp add: length_drop)
  next
    case False
    with 2 show ?thesis by auto
  qed
qed

lemma length_str_replace_gt:
  "length old < length new \<Longrightarrow> sublist old s \<Longrightarrow> length s < length (str_replace old new s)"
proof (induction old new s rule: str_replace.induct)
  case (1 old new)
  then show ?case by simp
next
  case (2 old new c cs)
  show ?case
  proof (cases "old = []")
    case True
    with 2 show ?thesis
      using length_str_replace_ge[of old new cs] by auto
  next
    case False
    show ?thesis
    proof (cases "prefix old (c # cs)")
      case True
      then have "length old \<le> length (c # cs)" by (auto dest: prefix_length_le)
      moreover have "length (drop (length old) (c # cs)) \<le>
            length (str_replace old new (drop (length old) (c # cs)))"
        using 2(4) by (intro length_str_replace_ge) simp
      ultimately show ?thesis using True False 2(4)
        by (simp del: drop_Suc_Cons)
    next
      case np: False
      with 2 False show ?thesis by (auto simp: sublist_Cons_right)
    qed
  qed
qed

lemma sublist_proper_longer:
  assumes "sublist m r" "r \<noteq> m" shows "length m < length r"
proof -
  from assms(1) obtain ps ss where "r = ps @ m @ ss" by (auto simp: sublist_def)
  with assms(2) show ?thesis by (cases ps; cases ss) auto
qed

text \<open>
  C6, as the code has it.  When the match does not occur in the rewritten name, applying
  the same rule again leaves the name unchanged, and a second run does nothing to the
  file: the batch script reports it skipped and makes no call, the graphical variants
  pass it over.  When the replacement contains the match and differs from it, and the
  match occurs in the file name, applying the rule again changes the name again.
\<close>

theorem reapplication_idempotent_unless_reintroduced:
  "(\<not> str_in match (computeNewName [(match, replacement)] filename) \<longrightarrow>
      computeNewName [(match, replacement)] (computeNewName [(match, replacement)] filename) =
        computeNewName [(match, replacement)] filename
      \<and> (suffix ''.png'' (computeNewName [(match, replacement)] filename) \<longrightarrow>
           log (process_file os [(match, replacement)] root
                  (computeNewName [(match, replacement)] filename) r) =
             log r @ [(computeNewName [(match, replacement)] filename, Skipped)]
           \<and> rename_calls (process_file os [(match, replacement)] root
                  (computeNewName [(match, replacement)] filename) r) = rename_calls r)
      \<and> (os_path_basename os file_path = computeNewName [(match, replacement)] filename \<longrightarrow>
           rename_candidate os match replacement file_path (w, n) = (w, n)))
   \<and> (str_in match filename \<and> str_in match replacement \<and> replacement \<noteq> match \<longrightarrow>
        computeNewName [(match, replacement)] (computeNewName [(match, replacement)] filename) \<noteq>
          computeNewName [(match, replacement)] filename)"
proof (intro conjI impI)
  assume a: "str_in match filename \<and> str_in match replacement \<and> replacement \<noteq> match"
  let ?once = "str_replace match replacement filename"
  from a have once: "computeNewName [(match, replacement)] filename = ?once" by simp
  from a have "sublist replacement ?once"
    by (simp add: str_in_def str_replace_contains_new)
  with a have again: "sublist match ?once"
    unfolding str_in_def by (meson sublist_order.order_trans)
  from a have "length match < length replacement"
    by (simp add: str_in_def sublist_proper_longer)
  then have "length ?once < length (str_replace match replacement ?once)"
    using again by (rule length_str_replace_gt)
  with once again
  show "computeNewName [(match, replacement)] (computeNewName [(match, replacement)] filename) \<noteq>
          computeNewName [(match, replacement)] filename"
    by (auto simp: str_in_def)
qed (simp_all add: process_file_def rename_candidate_def Let_def)

theorem reapplication_idempotent_unless_reintroduced_witness:
  "\<not> str_in ''_Diffuse'' (computeNewName [(''_Diffuse'', ''_COL'')] ''wood_Diffuse.png'')
   \<and> computeNewName [(''_Diffuse'', ''_COL'')] ''wood_COL.png'' = ''wood_COL.png''
   \<and> suffix ''.png'' ''wood_COL.png''
   \<and> log (process_file example_os [(''_Diffuse'', ''_COL'')] ''/t'' ''wood_COL.png''
            (example_run [''/t/wood_COL.png''])) = [(''wood_COL.png'', Skipped)]
   \<and> os_path_basename example_os ''/t/wood_COL.png'' = ''wood_COL.png''
   \<and> rename_candidate example_os ''_Diffuse'' ''_COL'' ''/t/wood_COL.png''
        (example_window [''/t/wood_COL.png''] [''/t/wood_COL.png''] ''_Diffuse'' ''_COL'', 0) =
       (example_window [''/t/wood_COL.png''] [''/t/wood_COL.png''] ''_Diffuse'' ''_COL'', 0)
   \<and> str_in ''a'' ''banana'' \<and> str_in ''a'' ''aa'' \<and> ''aa'' \<noteq> ''a''
   \<and> computeNewName [(''a'', ''aa'')] ''baanaanaa'' \<noteq> ''baanaanaa''"
  using reapplication_idempotent_unless_reintroduced [of "''_Diffuse''" "''_COL''"
      "''wood_Diffuse.png''" example_os "''/t''" "example_run [''/t/wood_COL.png'']"
      "''/t/wood_COL.png''"
      "example_window [''/t/wood_COL.png''] [''/t/wood_COL.png''] ''_Diffuse'' ''_COL''" 0]
    reapplication_idempotent_unless_reintroduced [of "''a''" "''aa''" "''banana''"]
  by (simp add: example_defs str_in_def sublist_code(3) suffix_to_prefix)

text \<open>
  A replacement that contains the match need not break idempotence: with the match \<open>a\<close>
  replaced by \<open>a\<close>, which occurs in \<open>a.png\<close>, the second application gives what the first
  gave.
\<close>

theorem identical_replacement_is_idempotent:
  "str_in ''a'' ''a.png'' \<and> str_in ''a'' ''a''
   \<and> computeNewName [(''a'', ''a'')] (computeNewName [(''a'', ''a'')] ''a.png'') =
       computeNewName [(''a'', ''a'')] ''a.png''"
  by (simp add: str_in_def sublist_code(3))

section \<open>The working set\<close>

lemma files_fold_offer:
  "files (fold (offer os) urls w) =
     files w @ first_occurrences
       (filter (\<lambda>p. os_path_isfile os (disk w) p \<and> p \<notin> set (files w)) urls)"
proof (induction urls arbitrary: w)
  case Nil
  then show ?case by simp
next
  case (Cons p urls)
  show ?case
  proof (cases "os_path_isfile os (disk w) p \<and> p \<notin> set (files w)")
    case True
    then have step: "fold (offer os) (p # urls) w = fold (offer os) urls (w\<lparr>files := files w @ [p]\<rparr>)"
      by (simp add: offer_def)
    have "(\<lambda>q. os_path_isfile os (disk w) q \<and> q \<notin> set (files w) \<and> q \<noteq> p) =
          (\<lambda>q. q \<noteq> p \<and> os_path_isfile os (disk w) q \<and> q \<notin> set (files w))"
      by auto
    then show ?thesis
      unfolding step using True Cons.IH[of "w\<lparr>files := files w @ [p]\<rparr>"]
      by (simp add: conj_commute)
  next
    case False
    then show ?thesis using Cons.IH[of w] by (auto simp: offer_def)
  qed
qed

lemma set_first_occurrences: "set (first_occurrences xs) = set xs"
proof (induction xs rule: first_occurrences.induct)
  case 1
  then show ?case by simp
next
  case (2 x xs)
  then show ?case by auto
qed

lemma distinct_first_occurrences: "distinct (first_occurrences xs)"
proof (induction xs rule: first_occurrences.induct)
  case 1
  then show ?case by simp
next
  case (2 x xs)
  then show ?case by (simp add: set_first_occurrences)
qed

lemma distinct_dropEvent:
  "distinct (files w) \<Longrightarrow> distinct (files (dropEvent os urls w))"
  by (auto simp: dropEvent_def files_fold_offer distinct_first_occurrences set_first_occurrences)

lemma distinct_fold_dropEvent:
  "distinct (files w) \<Longrightarrow> distinct (files (fold (dropEvent os) drops w))"
  by (induction drops arbitrary: w) (simp_all add: distinct_dropEvent)

text \<open>
  C7.  The working set never holds a path twice: it is duplicate-free after any sequence
  of drops into the initial window, and a drop keeps it duplicate-free.  Dropping a path
  that is already held changes nothing, and dropping one path twice into the empty set
  yields it once (when it is a file).  A drop appends to the held paths, in the order
  of their first occurrence in the drop, the dropped paths that are files and not yet
  held; the paths already held keep their places.
\<close>

theorem candidates_are_deduplicated:
  "distinct (files (fold (dropEvent os) drops (initial_window d)))
   \<and> (distinct (files w) \<longrightarrow> distinct (files (dropEvent os urls w)))
   \<and> (file_path \<in> set (files w) \<longrightarrow> dropEvent os [file_path] w = w)
   \<and> files (dropEvent os [file_path, file_path] (initial_window d)) =
       (if os_path_isfile os d file_path then [file_path] else [])
   \<and> files (dropEvent os urls w) =
       files w @ first_occurrences
         (filter (\<lambda>p. os_path_isfile os (disk w) p \<and> p \<notin> set (files w)) urls)"
proof (intro conjI impI)
  show "distinct (files (fold (dropEvent os) drops (initial_window d)))"
    by (rule distinct_fold_dropEvent) (simp add: initial_window_def)
  show "files (dropEvent os [file_path, file_path] (initial_window d)) =
       (if os_path_isfile os d file_path then [file_path] else [])"
    by (simp add: dropEvent_def offer_def initial_window_def)
  show "files (dropEvent os urls w) =
       files w @ first_occurrences
         (filter (\<lambda>p. os_path_isfile os (disk w) p \<and> p \<notin> set (files w)) urls)"
    by (simp add: dropEvent_def files_fold_offer)
qed (simp_all add: distinct_dropEvent, simp add: dropEvent_def offer_def)

theorem candidates_are_deduplicated_witness:
  "distinct [''/t/a.png'']
   \<and> ''/t/a.png'' \<in> set (files (example_window [''/t/a.png'', ''/t/b.png''] [''/t/a.png''] [] []))
   \<and> files (dropEvent example_os [''/t/b.png'', ''/t/a.png'', ''/t/c.png'', ''/t/b.png'']
        (example_window [''/t/a.png'', ''/t/b.png''] [''/t/a.png''] [] [])) =
       [''/t/a.png'', ''/t/b.png'']
   \<and> dropEvent example_os [''/t/a.png''] (example_window [''/t/a.png'', ''/t/b.png''] [''/t/a.png''] [] [])
       = example_window [''/t/a.png'', ''/t/b.png''] [''/t/a.png''] [] []"
  using candidates_are_deduplicated [of example_os "[]" "[]"
      "example_window [''/t/a.png'', ''/t/b.png''] [''/t/a.png''] [] []"
      "[''/t/b.png'', ''/t/a.png'', ''/t/c.png'', ''/t/b.png'']" "''/t/a.png''"]
  by (simp add: example_defs)

section \<open>Validation and clearing\<close>

lemma rejected_run:
  "files w = [] \<or> strip (pattern_input w) = [] \<Longrightarrow>
   FileRenamerApp_rename_files os w =
     w\<lparr>log_output := log_output w @
         [if files w = [] then No_files_to_rename else Pattern_cannot_be_empty]\<rparr>"
  by (auto simp: FileRenamerApp_rename_files_def Let_def)

text \<open>
  C8.  A run of \<open>rename_files\<close> of the graphical variants is rejected when there are no
  candidates or when the stripped pattern is empty: it appends the validation message
  and leaves the working set, and everything else, as it was.  Otherwise it runs the
  loop over the candidates, appends the summary and clears the working set, whatever
  \<open>os.rename\<close> did, also when it raised for some or for all candidates.
\<close>

theorem working_set_kept_on_rejection_cleared_after_processing:
  "(files w = [] \<or> strip (pattern_input w) = [] \<longrightarrow>
      FileRenamerApp_rename_files os w =
        w\<lparr>log_output := log_output w @
            [if files w = [] then No_files_to_rename else Pattern_cannot_be_empty]\<rparr>
      \<and> files (FileRenamerApp_rename_files os w) = files w)
   \<and> (files w \<noteq> [] \<and> strip (pattern_input w) \<noteq> [] \<longrightarrow>
        FileRenamerApp_rename_files os w =
          clear_files
            ((fst (rename_loop os (strip (pattern_input w)) (strip (replace_input w)) (files w) (w, 0)))
               \<lparr>log_output :=
                   log_output (fst (rename_loop os (strip (pattern_input w))
                                      (strip (replace_input w)) (files w) (w, 0))) @
                   [Files_renamed (snd (rename_loop os (strip (pattern_input w))
                                      (strip (replace_input w)) (files w) (w, 0)))]\<rparr>)
        \<and> files (FileRenamerApp_rename_files os w) = [])"
  by (auto simp: rejected_run) (simp_all add: FileRenamerApp_rename_files_def Let_def clear_files_def)

theorem working_set_kept_on_rejection_cleared_after_processing_witness:
  "strip (pattern_input (example_window [''/t/a.png''] [''/t/a.png''] ''  '' ''c'')) = []
   \<and> files (FileRenamerApp_rename_files example_os
        (example_window [''/t/a.png''] [''/t/a.png''] ''  '' ''c'')) =
      files (example_window [''/t/a.png''] [''/t/a.png''] ''  '' ''c'')
   \<and> files (example_window [''/t/a.png'', ''/t/c.png''] [''/t/a.png''] ''a'' ''c'') \<noteq> []
   \<and> strip (pattern_input (example_window [''/t/a.png'', ''/t/c.png''] [''/t/a.png''] ''a'' ''c'')) \<noteq> []
   \<and> os_rename example_os [''/t/a.png'', ''/t/c.png''] ''/t/a.png'' ''/t/c.png'' =
       Inl (OSError ''File exists'')
   \<and> files (FileRenamerApp_rename_files example_os
        (example_window [''/t/a.png'', ''/t/c.png''] [''/t/a.png''] ''a'' ''c'')) = []"
proof -
  have rejected: "strip (pattern_input (example_window [''/t/a.png''] [''/t/a.png''] ''  '' ''c'')) = []"
    by (simp add: example_defs strip_def isspace_def)
  have accepted:
    "files (example_window [''/t/a.png'', ''/t/c.png''] [''/t/a.png''] ''a'' ''c'') \<noteq> []"
    "strip (pattern_input (example_window [''/t/a.png'', ''/t/c.png''] [''/t/a.png''] ''a'' ''c'')) \<noteq> []"
    by (simp_all add: example_defs strip_def isspace_def)
  have fails: "os_rename example_os [''/t/a.png'', ''/t/c.png''] ''/t/a.png'' ''/t/c.png'' =
       Inl (OSError ''File exists'')"
    by (simp add: example_defs)
  show ?thesis
    using rejected accepted fails
      working_set_kept_on_rejection_cleared_after_processing [of
        "example_window [''/t/a.png''] [''/t/a.png''] ''  '' ''c''" example_os]
      working_set_kept_on_rejection_cleared_after_processing [of
        "example_window [''/t/a.png'', ''/t/c.png''] [''/t/a.png''] ''a'' ''c''" example_os]
    by blast
qed

section \<open>Empty patterns\<close>

text \<open>
  C3, as the code has it.  In the graphical variants a run whose pattern is empty after
  stripping is rejected: it appends a validation message (\<open>No files to rename.\<close> when
  there are no candidates, \<open>Pattern cannot be empty.\<close> otherwise) and nothing else
  happens: no candidate is processed, no \<open>os.rename\<close> call is made, the disk is the
  same.
\<close>

theorem gui_rejects_empty_pattern:
  "strip (pattern_input w) = [] \<longrightarrow>
     FileRenamerApp_rename_files os w =
       w\<lparr>log_output := log_output w @
           [if files w = [] then No_files_to_rename else Pattern_cannot_be_empty]\<rparr>
     \<and> disk (FileRenamerApp_rename_files os w) = disk w
     \<and> rename_calls (FileRenamerApp_rename_files os w) = rename_calls w
     \<and> concat (map reported (log_output (FileRenamerApp_rename_files os w))) =
         concat (map reported (log_output w))"
  by (simp add: rejected_run)

theorem gui_rejects_empty_pattern_witness:
  "strip [] = []
   \<and> FileRenamerApp_rename_files example_os (example_window [''/t/a.png''] [''/t/a.png''] [] ''c'') =
       \<lparr>disk = [''/t/a.png''], rename_calls = [], files = [''/t/a.png''], pattern_input = [],
        replace_input = ''c'', log_output = [Pattern_cannot_be_empty]\<rparr>"
  using gui_rejects_empty_pattern [of "example_window [''/t/a.png''] [''/t/a.png''] [] ''c''" example_os]
  by (simp add: example_defs strip_def)

text \<open>
  The batch script validates nothing.  A rule file with the row of an empty match and
  the replacement \<open>X\<close> does not stop the run: the load fails on the name \<open>csv\<close>, and the
  candidate is processed and reported skipped.  The loop itself, given that rule,
  inserts the replacement at every position of the name and renames the file.
\<close>

theorem batch_runs_on_empty_match:
  "log (snd (rename_files example_os (Inr [['''', ''X'']]) [(''/t'', [], [''a.png''])] [''/t/a.png''])) =
     [(''a.png'', Skipped)]
   \<and> fst (rename_files example_os (Inr [['''', ''X'']]) [(''/t'', [], [''a.png''])] [''/t/a.png'']) =
     [NameError ''csv'']
   \<and> walk_loop example_os [('''', ''X'')] [(''/t'', [], [''a.png''])] (example_run [''/t/a.png'']) =
       \<lparr>disk = [''/t/XaX.XpXnXgX''], rename_calls = [(''/t/a.png'', ''/t/XaX.XpXnXgX'')],
        rename_count = 1, skipped_count = 0, processed_paths = [''/t''],
        log = [(''a.png'', Renamed_to ''XaX.XpXnXgX'')]\<rparr>"
  by (simp add: example_defs rename_files_def load_rename_patterns_def module_imports_def
      process_file_def str_in_def suffix_to_prefix Let_def)

section \<open>Loading the rules\<close>

lemma load_rename_patterns_empty:
  "load_rename_patterns opened =
     ([], [case opened of Inl e \<Rightarrow> e | Inr rows \<Rightarrow> NameError ''csv''])"
  by (simp add: load_rename_patterns_def module_imports_def split: sum.splits)

lemma process_file_no_patterns:
  "process_file os [] root file r =
     (if suffix ''.png'' file
      then r\<lparr>processed_paths := processed_paths r @ [root],
             skipped_count := skipped_count r + 1,
             log := log r @ [(file, Skipped)]\<rparr>
      else r)"
  by (simp add: process_file_def)

lemma fold_process_file_no_patterns:
  "fold (process_file os [] root) fs r =
     r\<lparr>processed_paths := processed_paths r @ replicate (length (filter (suffix ''.png'') fs)) root,
       skipped_count := skipped_count r + length (filter (suffix ''.png'') fs),
       log := log r @ map (\<lambda>file. (file, Skipped)) (filter (suffix ''.png'') fs)\<rparr>"
  by (induction fs arbitrary: r) (simp_all add: process_file_no_patterns replicate_app_Cons_same)

lemma walk_loop_no_patterns:
  "disk (walk_loop os [] walked r) = disk r \<and>
   rename_calls (walk_loop os [] walked r) = rename_calls r \<and>
   rename_count (walk_loop os [] walked r) = rename_count r \<and>
   skipped_count (walk_loop os [] walked r) = skipped_count r + length (candidates_of walked) \<and>
   log (walk_loop os [] walked r) = log r @ map (\<lambda>file. (file, Skipped)) (candidates_of walked)"
  by (induction walked arbitrary: r) (auto simp: candidates_of_def fold_process_file_no_patterns)

text \<open>
  C9.  \<open>load_rename_patterns\<close> returns in every case: when \<open>open\<close> raises, and when the
  file opens and the name \<open>csv\<close> raises \<open>NameError\<close>, the exception is printed and the
  empty dictionary is returned.  With no rule the new name of every file is its old
  name, so the run reports every candidate skipped, counts no renamed file, makes no
  \<open>os.rename\<close> call and leaves the disk as it was.
\<close>

theorem unreadable_rules_skip_every_file:
  "load_rename_patterns opened =
     ([], [case opened of Inl e \<Rightarrow> e | Inr rows \<Rightarrow> NameError ''csv''])
   \<and> computeNewName [] file = file
   \<and> fst (rename_files os opened walked d) =
       [case opened of Inl e \<Rightarrow> e | Inr rows \<Rightarrow> NameError ''csv'']
   \<and> log (snd (rename_files os opened walked d)) =
       map (\<lambda>file. (file, Skipped)) (candidates_of walked)
   \<and> skipped_count (snd (rename_files os opened walked d)) = length (candidates_of walked)
   \<and> rename_count (snd (rename_files os opened walked d)) = 0
   \<and> rename_calls (snd (rename_files os opened walked d)) = []
   \<and> disk (snd (rename_files os opened walked d)) = d"
  by (simp add: rename_files_def load_rename_patterns_empty walk_loop_no_patterns Let_def)

section \<open>Whitespace around the typed texts\<close>

lemma dropWhile_all: "\<forall>x \<in> set xs. P x \<Longrightarrow> dropWhile P xs = []"
  by (induction xs) auto

lemma dropWhile_skip: "\<forall>x \<in> set xs. P x \<Longrightarrow> dropWhile P (xs @ ys) = dropWhile P ys"
  by (induction xs) auto

lemma strip_whitespace_only: "\<forall>c \<in> set s. isspace c \<Longrightarrow> strip s = []"
  unfolding strip_def by (simp only: dropWhile_all rev.simps dropWhile.simps)

lemma strip_surrounded:
  assumes "\<forall>c \<in> set l. isspace c" "\<forall>c \<in> set t. isspace c"
  shows "strip (l @ s @ t) = strip s"
proof (cases "\<forall>c \<in> set s. isspace c")
  case True
  with assms have "\<forall>c \<in> set (l @ s @ t). isspace c" by auto
  then have "strip (l @ s @ t) = []" by (rule strip_whitespace_only)
  with True show ?thesis by (simp only: strip_whitespace_only)
next
  case False
  then obtain x where x: "x \<in> set s" "\<not> isspace x" by blast
  have "dropWhile isspace (l @ s @ t) = dropWhile isspace (s @ t)"
    using assms(1) by (rule dropWhile_skip)
  also have "\<dots> = dropWhile isspace s @ t"
    using x by (rule dropWhile_append1)
  finally have "rev (dropWhile isspace (l @ s @ t)) = rev t @ rev (dropWhile isspace s)"
    by simp
  moreover have "\<forall>c \<in> set (rev t). isspace c" using assms(2) by simp
  ultimately show ?thesis
    unfolding strip_def by (simp only: dropWhile_skip)
qed

lemma strip_edges:
  assumes "strip s \<noteq> []"
  shows "\<not> isspace (hd (strip s)) \<and> \<not> isspace (last (strip s))"
proof -
  let ?d = "dropWhile isspace s"
  let ?r = "dropWhile isspace (rev ?d)"
  from assms have r: "?r \<noteq> []" unfolding strip_def by (simp only: rev_is_Nil_conv not_False_eq_True)
  then have d: "?d \<noteq> []" by (metis dropWhile.simps(1) rev.simps(1))
  have "last (rev ?d) = last (takeWhile isspace (rev ?d) @ ?r)" by simp
  also have "\<dots> = last ?r" using r by (rule last_appendR)
  finally have "last ?r = hd ?d" using d by (simp only: last_rev)
  moreover have "\<not> isspace (hd ?d)" using d by (rule hd_dropWhile)
  moreover have "\<not> isspace (hd ?r)" using r by (rule hd_dropWhile)
  ultimately show ?thesis using r unfolding strip_def by (simp only: hd_rev last_rev simp_thms)
qed

lemma rename_candidate_inputs:
  "rename_candidate os pattern replace file_path (w\<lparr>pattern_input := a, replace_input := b\<rparr>, n) =
     ((fst (rename_candidate os pattern replace file_path (w, n)))
        \<lparr>pattern_input := a, replace_input := b\<rparr>,
      snd (rename_candidate os pattern replace file_path (w, n)))"
  by (simp add: rename_candidate_def Let_def split: sum.splits)

lemma rename_loop_inputs:
  "rename_loop os pattern replace fs (w\<lparr>pattern_input := a, replace_input := b\<rparr>, n) =
     ((fst (rename_loop os pattern replace fs (w, n)))\<lparr>pattern_input := a, replace_input := b\<rparr>,
      snd (rename_loop os pattern replace fs (w, n)))"
proof (induction fs arbitrary: w n)
  case Nil
  then show ?case by simp
next
  case (Cons file_path fs)
  show ?case
    using Cons.IH[of "fst (rename_candidate os pattern replace file_path (w, n))"
        "snd (rename_candidate os pattern replace file_path (w, n))"]
    by (simp add: rename_candidate_inputs)
qed

lemma rename_files_inputs:
  assumes "strip a = strip (pattern_input w)" "strip b = strip (replace_input w)"
  shows "FileRenamerApp_rename_files os (w\<lparr>pattern_input := a, replace_input := b\<rparr>) =
         (FileRenamerApp_rename_files os w)\<lparr>pattern_input := a, replace_input := b\<rparr>"
  using assms
  by (simp add: FileRenamerApp_rename_files_def Let_def rename_loop_inputs clear_files_def)

text \<open>
  C10, as the code has it.  In \<open>rename_files\<close> of both graphical variants the typed
  pattern and replacement are stripped before they are validated and used: whitespace
  typed around either text changes nothing in what the run does (the result differs
  only in the text fields themselves), and the stripped pattern and replacement neither
  begin nor end with whitespace.  A pattern of whitespace only makes the run stop at
  validation, with \<open>Pattern cannot be empty.\<close> when there are candidates and with
  \<open>No files to rename.\<close> when there are none, the pattern being read only after the
  candidates are found present.
\<close>

theorem typed_whitespace_is_stripped:
  "((\<forall>c \<in> set l. isspace c) \<and> (\<forall>c \<in> set t. isspace c) \<and>
    (\<forall>c \<in> set l'. isspace c) \<and> (\<forall>c \<in> set t'. isspace c) \<longrightarrow>
      FileRenamerApp_rename_files os
        (w\<lparr>pattern_input := l @ pattern_input w @ t, replace_input := l' @ replace_input w @ t'\<rparr>) =
      (FileRenamerApp_rename_files os w)
        \<lparr>pattern_input := l @ pattern_input w @ t, replace_input := l' @ replace_input w @ t'\<rparr>)
   \<and> ((\<forall>c \<in> set (pattern_input w). isspace c) \<longrightarrow>
        FileRenamerApp_rename_files os w =
          w\<lparr>log_output := log_output w @
              [if files w = [] then No_files_to_rename else Pattern_cannot_be_empty]\<rparr>)
   \<and> (strip (pattern_input w) \<noteq> [] \<longrightarrow>
        \<not> isspace (hd (strip (pattern_input w))) \<and> \<not> isspace (last (strip (pattern_input w))))
   \<and> (strip (replace_input w) \<noteq> [] \<longrightarrow>
        \<not> isspace (hd (strip (replace_input w))) \<and> \<not> isspace (last (strip (replace_input w))))"
proof (intro conjI impI)
  assume "(\<forall>c \<in> set l. isspace c) \<and> (\<forall>c \<in> set t. isspace c) \<and>
    (\<forall>c \<in> set l'. isspace c) \<and> (\<forall>c \<in> set t'. isspace c)"
  then have "strip (l @ pattern_input w @ t) = strip (pattern_input w)"
    and "strip (l' @ replace_input w @ t') = strip (replace_input w)"
    by (simp_all add: strip_surrounded)
  then show "FileRenamerApp_rename_files os
        (w\<lparr>pattern_input := l @ pattern_input w @ t, replace_input := l' @ replace_input w @ t'\<rparr>) =
      (FileRenamerApp_rename_files os w)
        \<lparr>pattern_input := l @ pattern_input w @ t, replace_input := l' @ replace_input w @ t'\<rparr>"
    by (rule rename_files_inputs)
next
  assume "\<forall>c \<in> set (pattern_input w). isspace c"
  then have "strip (pattern_input w) = []"
    by (rule strip_whitespace_only)
  then show "FileRenamerApp_rename_files os w =
      w\<lparr>log_output := log_output w @
          [if files w = [] then No_files_to_rename else Pattern_cannot_be_empty]\<rparr>"
    by (simp add: rejected_run)
qed (simp_all add: strip_edges)

theorem typed_whitespace_is_stripped_witness:
  "list_all isspace '' '' \<and>
   FileRenamerApp_rename_files example_os
     (example_window [''/t/x a.png''] [''/t/x a.png''] '' a '' '' b'') =
     \<lparr>disk = [''/t/x b.png''], rename_calls = [(''/t/x a.png'', ''/t/x b.png'')], files = [],
      pattern_input = '' a '', replace_input = '' b'',
      log_output = [Renamed ''x a.png'' ''x b.png'', Files_renamed 1]\<rparr>
   \<and> list_all isspace (pattern_input (example_window [''/t/x a.png''] [''/t/x a.png''] ''  '' ''b''))
   \<and> FileRenamerApp_rename_files example_os
       (example_window [''/t/x a.png''] [''/t/x a.png''] ''  '' ''b'') =
      \<lparr>disk = [''/t/x a.png''], rename_calls = [], files = [''/t/x a.png''],
       pattern_input = ''  '', replace_input = ''b'', log_output = [Pattern_cannot_be_empty]\<rparr>
   \<and> FileRenamerApp_rename_files example_os (example_window [''/t/x a.png''] [] ''  '' ''b'') =
      \<lparr>disk = [''/t/x a.png''], rename_calls = [], files = [],
       pattern_input = ''  '', replace_input = ''b'', log_output = [No_files_to_rename]\<rparr>
   \<and> strip '' a '' \<noteq> [] \<and> \<not> isspace (hd (strip '' a ''))"
proof -
  let ?w = "example_window [''/t/x a.png''] [''/t/x a.png''] ''a'' ''b''"
  let ?blank = "example_window [''/t/x a.png''] [''/t/x a.png''] ''  '' ''b''"
  let ?none = "example_window [''/t/x a.png''] [] ''  '' ''b''"
  let ?typed = "example_window [''/t/x a.png''] [''/t/x a.png''] '' a '' '' b''"
  have sp: "\<forall>c \<in> set '' ''. isspace c" "\<forall>c \<in> set []. isspace c"
    by (simp_all add: isspace_def)
  have typed: "?w\<lparr>pattern_input := '' '' @ pattern_input ?w @ '' '',
                  replace_input := '' '' @ replace_input ?w @ []\<rparr> = ?typed"
    by (simp add: example_window_def)
  have plain: "FileRenamerApp_rename_files example_os ?w =
     \<lparr>disk = [''/t/x b.png''], rename_calls = [(''/t/x a.png'', ''/t/x b.png'')], files = [],
      pattern_input = ''a'', replace_input = ''b'',
      log_output = [Renamed ''x a.png'' ''x b.png'', Files_renamed 1]\<rparr>"
    by (simp add: example_defs FileRenamerApp_rename_files_def rename_candidate_def clear_files_def
        strip_def isspace_def str_in_def sublist_code(3) suffix_to_prefix Let_def)
  have blank: "\<forall>c \<in> set (pattern_input ?blank). isspace c"
    "\<forall>c \<in> set (pattern_input ?none). isspace c"
    by (simp_all add: example_window_def isspace_def)
  have ne: "strip (pattern_input ?typed) \<noteq> []"
    by (simp add: example_window_def strip_def isspace_def)
  have "FileRenamerApp_rename_files example_os ?typed =
       (FileRenamerApp_rename_files example_os ?w)
         \<lparr>pattern_input := '' '' @ pattern_input ?w @ '' '',
          replace_input := '' '' @ replace_input ?w @ []\<rparr>"
    using typed_whitespace_is_stripped [of "'' ''" "'' ''" "'' ''" "[]" example_os ?w] sp typed
    by simp
  moreover have "FileRenamerApp_rename_files example_os ?blank =
      ?blank\<lparr>log_output := log_output ?blank @
          [if files ?blank = [] then No_files_to_rename else Pattern_cannot_be_empty]\<rparr>"
    using typed_whitespace_is_stripped [of "[]" "[]" "[]" "[]" example_os ?blank] blank(1) by blast
  moreover have "FileRenamerApp_rename_files example_os ?none =
      ?none\<lparr>log_output := log_output ?none @
          [if files ?none = [] then No_files_to_rename else Pattern_cannot_be_empty]\<rparr>"
    using typed_whitespace_is_stripped [of "[]" "[]" "[]" "[]" example_os ?none] blank(2) by blast
  moreover have "\<not> isspace (hd (strip (pattern_input ?typed)))"
    using typed_whitespace_is_stripped [of "[]" "[]" "[]" "[]" example_os ?typed] ne by blast
  ultimately show ?thesis
    using sp blank ne plain by (simp add: example_window_def list_all_iff)
qed

text \<open>
  With no candidates a pattern of whitespace only is answered by \<open>No files to rename.\<close>,
  not by the empty-pattern message.  And the live preview of the PyQt6 variant reads the
  texts as typed: for the pattern \<open>a\<close> typed with a space before it and the replacement
  \<open>b\<close> typed with a space after it, the preview matches the space of \<open>x a.png\<close> and
  shows a new name that holds the typed space, while \<open>rename_files\<close> on the same
  window renames the file to \<open>x b.png\<close>.
\<close>

theorem whitespace_pattern_without_candidates_and_raw_preview:
  "list_all isspace ''  ''
   \<and> log_output (FileRenamerApp_rename_files example_os
        (example_window [''/t/x a.png''] [] ''  '' ''b'')) = [No_files_to_rename]
   \<and> update_preview example_os
        (example_window [''/t/x a.png''] [''/t/x a.png''] '' a'' ''b '') =
       [Preview_change ''x a.png'' ''xb .png'']
   \<and> rename_calls (FileRenamerApp_rename_files example_os
        (example_window [''/t/x a.png''] [''/t/x a.png''] '' a'' ''b '')) =
       [(''/t/x a.png'', ''/t/x b.png'')]"
  by (simp add: example_defs FileRenamerApp_rename_files_def rename_candidate_def clear_files_def
      update_preview_def strip_def isspace_def str_in_def sublist_code(3) suffix_to_prefix Let_def)

end
